theory Spec2Isabelle
  imports Main
begin

section \<open>The connection pool of extra/pool/pool.go\<close>

text \<open>
  The package keeps idle \<^verbatim>\<open>*redis.Client\<close> values in a buffered Go channel. The
  embedding follows pool.go function by function. Everything the package does
  beyond returning a value is explicit: the pool behind the receiver pointer and
  the observable history of the redis package are passed in and handed back, a
  panic is a value, and both survive a panic (a Go caller may recover and go on
  using the pool). The model is of calls that run one after the other.
\<close>

subsection \<open>The redis package, as far as the pool uses it\<close>

text \<open>
  A \<^verbatim>\<open>*redis.Client\<close> is a pointer: \<open>None\<close> is nil, \<open>Some c\<close> points to the client
  object \<open>c\<close>. A Go \<^verbatim>\<open>error\<close> is an interface value: \<open>None\<close> is nil, otherwise
  its dynamic type is \<^verbatim>\<open>*redis.CmdError\<close> or something else.
\<close>

type_synonym client = nat

type_synonym conn = "client option"

datatype error = CmdError string | OtherError string

datatype abort = NilDereference | NegativeLen | Deadlock

text \<open>
  \<open>dialed\<close> lists the arguments of the calls of \<^verbatim>\<open>redis.Dial\<close> so far, \<open>closed\<close> the
  clients on which \<^verbatim>\<open>Close\<close> has been called, both oldest first.
\<close>

record world =
  dialed :: "(string \<times> string) list"
  closed :: "client list"

text \<open>
  The redis package is not part of pool.go; its two entry points are parameters.
  \<open>Dial r network addr k\<close> is what the call number \<open>k\<close> of \<^verbatim>\<open>redis.Dial\<close> returns,
  \<open>Close r c k\<close> is the error that \<^verbatim>\<open>c.Close()\<close> returns when \<open>c\<close> has been closed
  \<open>k\<close> times before.
\<close>

record redis =
  Dial :: "string \<Rightarrow> string \<Rightarrow> nat \<Rightarrow> conn \<times> error option"
  Close :: "client \<Rightarrow> nat \<Rightarrow> error option"

definition redis_Dial ::
  "redis \<Rightarrow> string \<Rightarrow> string \<Rightarrow> world \<Rightarrow> (conn \<times> error option) \<times> world" where
  "redis_Dial r network addr w =
     (Dial r network addr (length (dialed w)),
      w\<lparr>dialed := dialed w @ [(network, addr)]\<rparr>)"

text \<open>
  \<^verbatim>\<open>conn.Close()\<close>: the method reads the fields of its receiver, so a nil receiver
  is a nil pointer dereference.
\<close>

definition Client_Close ::
  "redis \<Rightarrow> conn \<Rightarrow> world \<Rightarrow> (abort + error option) \<times> world" where
  "Client_Close r conn w =
     (case conn of
        None \<Rightarrow> (Inl NilDereference, w)
      | Some c \<Rightarrow>
          (Inr (Close r c (count_list (closed w) c)), w\<lparr>closed := closed w @ [c]\<rparr>))"

subsection \<open>Buffered channels\<close>

text \<open>
  \<^verbatim>\<open>make(chan *redis.Client, n)\<close>: a queue of at most \<open>cap\<close> elements, oldest
  first. With no other goroutine around, a send finds room or does not, and a
  receive finds an element or does not.
\<close>

record chan =
  cap :: nat
  buf :: "conn list"

definition make_chan :: "nat \<Rightarrow> chan" where
  "make_chan n = \<lparr>cap = n, buf = []\<rparr>"

text \<open>\<^verbatim>\<open>select { case x := <-ch: ... default: ... }\<close>; \<open>None\<close> is the default branch.\<close>

definition try_recv :: "chan \<Rightarrow> (conn \<times> chan) option" where
  "try_recv ch =
     (case buf ch of
        [] \<Rightarrow> None
      | x # xs \<Rightarrow> Some (x, ch\<lparr>buf := xs\<rparr>))"

text \<open>\<^verbatim>\<open>select { case ch <- x: default: ... }\<close>; \<open>None\<close> is the default branch.\<close>

definition try_send :: "chan \<Rightarrow> conn \<Rightarrow> chan option" where
  "try_send ch x =
     (if length (buf ch) < cap ch then Some (ch\<lparr>buf := buf ch @ [x]\<rparr>) else None)"

text \<open>\<^verbatim>\<open>ch <- x\<close> outside a select waits for room; alone, it waits for ever.\<close>

definition send :: "chan \<Rightarrow> conn \<Rightarrow> abort + chan" where
  "send ch x =
     (case try_send ch x of
        Some ch' \<Rightarrow> Inr ch'
      | None \<Rightarrow> Inl Deadlock)"

subsection \<open>The pool\<close>

record Pool =
  Network :: string
  Addr :: string
  Pool :: chan

text \<open>
  The first loop of \<^verbatim>\<open>NewPool\<close>: \<^verbatim>\<open>for i := range pool\<close> dials into \<^verbatim>\<open>pool[i]\<close> and
  returns at the first error.
\<close>

function NewPool_dial ::
  "redis \<Rightarrow> string \<Rightarrow> string \<Rightarrow> conn list \<Rightarrow> nat \<Rightarrow> world \<Rightarrow> (error + conn list) \<times> world" where
  "NewPool_dial r network addr pool i w =
     (if i < length pool then
        (case redis_Dial r network addr w of
           ((c, err), w') \<Rightarrow>
             (case err of
                Some e \<Rightarrow> (Inl e, w')
              | None \<Rightarrow> NewPool_dial r network addr (pool[i := c]) (Suc i) w'))
      else (Inr pool, w))"
  by pat_completeness auto
termination
  by (relation "measure (\<lambda>(r, network, addr, pool, i, w). length pool - i)") auto

text \<open>The second loop of \<^verbatim>\<open>NewPool\<close>: \<^verbatim>\<open>p.Pool <- pool[i]\<close> for every index.\<close>

fun NewPool_fill :: "chan \<Rightarrow> conn list \<Rightarrow> abort + chan" where
  "NewPool_fill ch [] = Inr ch"
| "NewPool_fill ch (c # cs) =
     (case send ch c of
        Inl a \<Rightarrow> Inl a
      | Inr ch' \<Rightarrow> NewPool_fill ch' cs)"

text \<open>
  \<^verbatim>\<open>NewPool\<close> returns \<^verbatim>\<open>(*Pool, error)\<close>. \<^verbatim>\<open>make([]*redis.Client, size)\<close> panics on a
  negative size. The size is an unbounded integer here, and memory never runs
  out.
\<close>

definition NewPool ::
  "redis \<Rightarrow> string \<Rightarrow> string \<Rightarrow> int \<Rightarrow> world \<Rightarrow> (abort + Pool option \<times> error option) \<times> world" where
  "NewPool r network addr sz w =
     (if sz < 0 then (Inl NegativeLen, w)
      else
        (case NewPool_dial r network addr (replicate (nat sz) None) 0 w of
           (Inl e, w') \<Rightarrow> (Inr (None, Some e), w')
         | (Inr pool, w') \<Rightarrow>
             (case NewPool_fill (make_chan (length pool)) pool of
                Inl a \<Rightarrow> (Inl a, w')
              | Inr ch \<Rightarrow>
                  (Inr (Some \<lparr>Network = network, Addr = addr, Pool = ch\<rparr>, None), w'))))"

text \<open>
  \<^verbatim>\<open>NewOrEmptyPool\<close> returns a \<^verbatim>\<open>*Pool\<close>. The panic of
  \<^verbatim>\<open>make(chan *redis.Client, size)\<close> on a negative size is never reached:
  \<^verbatim>\<open>NewPool\<close> has panicked before.
\<close>

definition NewOrEmptyPool ::
  "redis \<Rightarrow> string \<Rightarrow> string \<Rightarrow> int \<Rightarrow> world \<Rightarrow> (abort + Pool option) \<times> world" where
  "NewOrEmptyPool r network addr sz w =
     (case NewPool r network addr sz w of
        (Inl a, w') \<Rightarrow> (Inl a, w')
      | (Inr (pool, err), w') \<Rightarrow>
          (case err of
             Some e \<Rightarrow>
               (if sz < 0 then (Inl NegativeLen, w')
                else
                  (Inr (Some \<lparr>Network = network, Addr = addr, Pool = make_chan (nat sz)\<rparr>),
                   w'))
           | None \<Rightarrow> (Inr pool, w')))"

text \<open>
  The methods have a receiver \<^verbatim>\<open>p *Pool\<close>, taken to be a pool that exists. Each
  returns its result or its panic, with the pool and the history as it leaves
  them.
\<close>

definition Put :: "redis \<Rightarrow> Pool \<Rightarrow> conn \<Rightarrow> world \<Rightarrow> (abort + unit) \<times> Pool \<times> world" where
  "Put r p conn w =
     (case try_send (Pool p) conn of
        Some ch \<Rightarrow> (Inr (), p\<lparr>Pool := ch\<rparr>, w)
      | None \<Rightarrow>
          (case Client_Close r conn w of
             (Inl a, w') \<Rightarrow> (Inl a, p, w')
           | (Inr _, w') \<Rightarrow> (Inr (), p, w')))"

definition is_CmdError :: "error \<Rightarrow> bool" where
  "is_CmdError e = (case e of CmdError _ \<Rightarrow> True | OtherError _ \<Rightarrow> False)"

text \<open>
  \<^verbatim>\<open>potentialErr\<close> is a \<^verbatim>\<open>*error\<close>: \<open>None\<close> is the nil pointer, \<open>Some None\<close> points
  to a nil error.
\<close>

definition CarefullyPut ::
  "redis \<Rightarrow> Pool \<Rightarrow> conn \<Rightarrow> error option option \<Rightarrow> world \<Rightarrow> (abort + unit) \<times> Pool \<times> world" where
  "CarefullyPut r p conn potentialErr w =
     (case potentialErr of
        Some (Some e) \<Rightarrow>
          (if \<not> is_CmdError e then (Inr (), p, w) else Put r p conn w)
      | _ \<Rightarrow> Put r p conn w)"

definition Get ::
  "redis \<Rightarrow> Pool \<Rightarrow> world \<Rightarrow> (abort + conn \<times> error option) \<times> Pool \<times> world" where
  "Get r p w =
     (case try_recv (Pool p) of
        Some (conn, ch) \<Rightarrow> (Inr (conn, None), p\<lparr>Pool := ch\<rparr>, w)
      | None \<Rightarrow>
          (case redis_Dial r (Network p) (Addr p) w of
             ((conn, err), w1) \<Rightarrow>
               (case CarefullyPut r p conn (Some err) w1 of
                  (Inl a, p2, w2) \<Rightarrow> (Inl a, p2, w2)
                | (Inr _, p2, w2) \<Rightarrow> (Inr (conn, err), p2, w2))))"

function Empty :: "redis \<Rightarrow> Pool \<Rightarrow> world \<Rightarrow> (abort + unit) \<times> Pool \<times> world" where
  "Empty r p w =
     (case try_recv (Pool p) of
        None \<Rightarrow> (Inr (), p, w)
      | Some (conn, ch) \<Rightarrow>
          (case Client_Close r conn w of
             (Inl a, w') \<Rightarrow> (Inl a, p\<lparr>Pool := ch\<rparr>, w')
           | (Inr _, w') \<Rightarrow> Empty r (p\<lparr>Pool := ch\<rparr>) w'))"
  by pat_completeness auto
termination
  by (relation "measure (\<lambda>(r, p, w). length (buf (Pool p)))")
     (auto simp: try_recv_def split: list.splits)

subsection \<open>Sequences of calls\<close>

text \<open>
  A caller's use of one pool: any sequence of the four methods with any
  arguments. \<open>step\<close> is the pool and the history after one call, whether the call
  returned or panicked; \<open>run\<close> lists every state a sequence passes through, the
  first one included.
\<close>

datatype call =
  CallGet
| CallPut conn
| CallCarefullyPut conn "error option option"
| CallEmpty

fun step :: "redis \<Rightarrow> call \<Rightarrow> Pool \<times> world \<Rightarrow> Pool \<times> world" where
  "step r CallGet (p, w) = snd (Get r p w)"
| "step r (CallPut conn) (p, w) = snd (Put r p conn w)"
| "step r (CallCarefullyPut conn potentialErr) (p, w) = snd (CarefullyPut r p conn potentialErr w)"
| "step r CallEmpty (p, w) = snd (Empty r p w)"

fun run :: "redis \<Rightarrow> call list \<Rightarrow> Pool \<times> world \<Rightarrow> (Pool \<times> world) list" where
  "run r [] s = [s]"
| "run r (c # cs) s = s # run r cs (step r c s)"

subsection \<open>Concrete servers\<close>

text \<open>
  A server that accepts every dial and hands out the clients 0, 1, 2, ...; one
  that refuses every dial; one that accepts two dials and refuses the rest. On
  each, closing a client twice is an error.
\<close>

definition close_once :: "client \<Rightarrow> nat \<Rightarrow> error option" where
  "close_once c k = (if k = 0 then None else Some (OtherError ''use of closed network connection''))"

definition redis_up :: redis where
  "redis_up = \<lparr>Dial = (\<lambda>network addr k. (Some k, None)), Close = close_once\<rparr>"

definition redis_down :: redis where
  "redis_down =
     \<lparr>Dial = (\<lambda>network addr k. (None, Some (OtherError ''connection refused''))),
      Close = close_once\<rparr>"

definition redis_flaky :: redis where
  "redis_flaky =
     \<lparr>Dial = (\<lambda>network addr k.
                if k < 2 then (Some k, None) else (None, Some (OtherError ''connection refused''))),
      Close = close_once\<rparr>"

definition world0 :: world where
  "world0 = \<lparr>dialed = [], closed = []\<rparr>"

definition tcp_pool :: "nat \<Rightarrow> conn list \<Rightarrow> Pool" where
  "tcp_pool n cs = \<lparr>Network = ''tcp'', Addr = ''localhost:6379'', Pool = \<lparr>cap = n, buf = cs\<rparr>\<rparr>"

section \<open>Properties\<close>

declare NewPool_dial.simps [simp del]

declare Empty.simps [simp del]

subsection \<open>Put and CarefullyPut\<close>

lemma Put_cases:
  "Put r p conn w =
     (if length (buf (Pool p)) < cap (Pool p)
      then (Inr (), p\<lparr>Pool := (Pool p)\<lparr>buf := buf (Pool p) @ [conn]\<rparr>\<rparr>, w)
      else (case conn of
              None \<Rightarrow> (Inl NilDereference, p, w)
            | Some c \<Rightarrow> (Inr (), p, w\<lparr>closed := closed w @ [c]\<rparr>)))"
  by (simp add: Put_def try_send_def Client_Close_def split: option.splits)

lemma CarefullyPut_cases:
  "CarefullyPut r p conn potentialErr w =
     (case potentialErr of
        Some (Some e) \<Rightarrow> if is_CmdError e then Put r p conn w else (Inr (), p, w)
      | _ \<Rightarrow> Put r p conn w)"
  by (simp add: CarefullyPut_def split: option.splits)

lemma dialed_Put: "dialed (snd (snd (Put r p conn w))) = dialed w"
  by (simp add: Put_cases split: option.splits)

lemma dialed_CarefullyPut: "dialed (snd (snd (CarefullyPut r p conn potentialErr w))) = dialed w"
  by (simp add: CarefullyPut_cases dialed_Put split: option.splits)

text \<open>
  Claim C6. \<^verbatim>\<open>Put\<close> appends the connection to the idle buffer when the buffer has
  room; when it is full, \<^verbatim>\<open>Put\<close> closes the connection and leaves the buffer as it
  was. It returns nothing, it never waits (the select has a default branch), and
  what \<^verbatim>\<open>Close\<close> returns has no effect on the outcome.
\<close>

theorem Put_buffers_or_closes:
  "(length (buf (Pool p)) < cap (Pool p) \<longrightarrow>
      Put r p conn w = (Inr (), p\<lparr>Pool := (Pool p)\<lparr>buf := buf (Pool p) @ [conn]\<rparr>\<rparr>, w))
 \<and> (\<not> length (buf (Pool p)) < cap (Pool p) \<longrightarrow>
      Put r p (Some c) w = (Inr (), p, w\<lparr>closed := closed w @ [c]\<rparr>))
 \<and> fst (Put r p conn w) \<noteq> Inl Deadlock
 \<and> Put (r\<lparr>Close := cl\<rparr>) p conn w = Put r p conn w"
  by (simp add: Put_cases split: option.splits)

theorem Put_buffers_or_closes_witness:
  "length (buf (Pool (tcp_pool 1 []))) < cap (Pool (tcp_pool 1 []))
 \<and> Put redis_up (tcp_pool 1 []) (Some 7) world0 = (Inr (), tcp_pool 1 [Some 7], world0)
 \<and> \<not> length (buf (Pool (tcp_pool 1 [Some 7]))) < cap (Pool (tcp_pool 1 [Some 7]))
 \<and> Put redis_up (tcp_pool 1 [Some 7]) (Some 8) world0
       = (Inr (), tcp_pool 1 [Some 7], \<lparr>dialed = [], closed = [8]\<rparr>)"
  using Put_buffers_or_closes [of "tcp_pool 1 []" redis_up "Some 7" world0 7 close_once]
    Put_buffers_or_closes [of "tcp_pool 1 [Some 7]" redis_up "Some 8" world0 8 close_once]
  by (simp add: tcp_pool_def world0_def)

text \<open>
  Claim C5. \<^verbatim>\<open>CarefullyPut\<close> is \<^verbatim>\<open>Put\<close> when the error behind the pointer is nil
  (or the pointer itself is nil) and when the error is a \<^verbatim>\<open>*redis.CmdError\<close>. On
  any other error it returns at once: the pool and the history are unchanged, so
  a connection that was not in the idle buffer is not in it afterwards.
\<close>

theorem CarefullyPut_is_Put_unless_broken:
  "CarefullyPut r p conn None w = Put r p conn w
 \<and> CarefullyPut r p conn (Some None) w = Put r p conn w
 \<and> (is_CmdError e \<longrightarrow> CarefullyPut r p conn (Some (Some e)) w = Put r p conn w)
 \<and> (\<not> is_CmdError e \<longrightarrow>
      CarefullyPut r p conn (Some (Some e)) w = (Inr (), p, w)
    \<and> (conn \<notin> set (buf (Pool p)) \<longrightarrow>
         conn \<notin> set (buf (Pool (fst (snd (CarefullyPut r p conn (Some (Some e)) w)))))))"
  by (simp add: CarefullyPut_def)

theorem CarefullyPut_is_Put_unless_broken_witness:
  "is_CmdError (CmdError ''ERR unknown command'')
 \<and> CarefullyPut redis_up (tcp_pool 1 []) (Some 3) (Some (Some (CmdError ''ERR unknown command''))) world0
       = (Inr (), tcp_pool 1 [Some 3], world0)
 \<and> \<not> is_CmdError (OtherError ''EOF'')
 \<and> CarefullyPut redis_up (tcp_pool 1 []) (Some 3) (Some (Some (OtherError ''EOF''))) world0
       = (Inr (), tcp_pool 1 [], world0)
 \<and> Some 3 \<notin> set (buf (Pool (tcp_pool 1 [])))
 \<and> Some 3 \<notin> set (buf (Pool (fst (snd
       (CarefullyPut redis_up (tcp_pool 1 []) (Some 3) (Some (Some (OtherError ''EOF''))) world0)))))"
  using CarefullyPut_is_Put_unless_broken
      [of redis_up "tcp_pool 1 []" "Some 3" world0 "CmdError ''ERR unknown command''"]
    CarefullyPut_is_Put_unless_broken
      [of redis_up "tcp_pool 1 []" "Some 3" world0 "OtherError ''EOF''"]
  by (simp add: is_CmdError_def Put_cases tcp_pool_def)

subsection \<open>Get\<close>

lemma Get_nonempty:
  "buf (Pool p) = c # cs \<Longrightarrow>
   Get r p w = (Inr (c, None), p\<lparr>Pool := (Pool p)\<lparr>buf := cs\<rparr>\<rparr>, w)"
  by (simp add: Get_def try_recv_def)

lemma Get_empty:
  assumes "buf (Pool p) = []"
    and "Dial r (Network p) (Addr p) (length (dialed w)) = (conn, err)"
  shows "Get r p w =
     (case CarefullyPut r p conn (Some err) (w\<lparr>dialed := dialed w @ [(Network p, Addr p)]\<rparr>) of
        (Inl a, s) \<Rightarrow> (Inl a, s)
      | (Inr u, s) \<Rightarrow> (Inr (conn, err), s))"
  using assms by (simp add: Get_def try_recv_def redis_Dial_def split: prod.splits sum.splits)

text \<open>
  Claim C4. On a pool whose idle buffer is not empty, \<^verbatim>\<open>Get\<close> returns the oldest
  buffered connection with a nil error and removes it from the buffer;
  \<^verbatim>\<open>redis.Dial\<close> is not called (the history is unchanged).
\<close>

theorem Get_takes_buffered_connection:
  assumes "buf (Pool p) \<noteq> []"
  shows "Get r p w =
           (Inr (hd (buf (Pool p)), None), p\<lparr>Pool := (Pool p)\<lparr>buf := tl (buf (Pool p))\<rparr>\<rparr>, w)
       \<and> hd (buf (Pool p)) \<in> set (buf (Pool p))
       \<and> dialed (snd (snd (Get r p w))) = dialed w"
  using assms by (cases "buf (Pool p)") (simp_all add: Get_nonempty)

theorem Get_takes_buffered_connection_witness:
  "buf (Pool (tcp_pool 2 [Some 5, Some 6])) \<noteq> []
 \<and> Get redis_up (tcp_pool 2 [Some 5, Some 6]) world0
       = (Inr (Some 5, None), tcp_pool 2 [Some 6], world0)
 \<and> dialed (snd (snd (Get redis_up (tcp_pool 2 [Some 5, Some 6]) world0))) = []"
  using Get_takes_buffered_connection [of "tcp_pool 2 [Some 5, Some 6]" redis_up world0]
  by (simp add: tcp_pool_def world0_def)

lemma Get_empty_leaves:
  assumes "buf (Pool p) = []"
    and "Dial r (Network p) (Addr p) (length (dialed w)) = (conn, err)"
  shows "snd (Get r p w) =
     snd (CarefullyPut r p conn (Some err) (w\<lparr>dialed := dialed w @ [(Network p, Addr p)]\<rparr>))"
  by (cases "CarefullyPut r p conn (Some err) (w\<lparr>dialed := dialed w @ [(Network p, Addr p)]\<rparr>)")
     (simp add: Get_empty [OF assms] split: sum.splits)

lemma Get_empty_dialed:
  assumes "buf (Pool p) = []"
  shows "dialed (snd (snd (Get r p w))) = dialed w @ [(Network p, Addr p)]"
proof -
  obtain conn err where d: "Dial r (Network p) (Addr p) (length (dialed w)) = (conn, err)"
    by (cases "Dial r (Network p) (Addr p) (length (dialed w))")
  show ?thesis
    by (simp add: Get_empty_leaves [OF assms d] dialed_CarefullyPut)
qed

lemma Get_empty_returns:
  assumes "buf (Pool p) = []"
    and "Dial r (Network p) (Addr p) (length (dialed w)) = (conn, err)"
    and "conn \<noteq> None \<or> (\<exists>e. err = Some e \<and> \<not> is_CmdError e)"
  shows "fst (Get r p w) = Inr (conn, err)"
proof -
  let ?w1 = "w\<lparr>dialed := dialed w @ [(Network p, Addr p)]\<rparr>"
  have "fst (CarefullyPut r p conn (Some err) ?w1) = Inr ()"
    using assms(3) by (auto simp: CarefullyPut_cases Put_cases split: option.splits)
  then show ?thesis
    by (cases "CarefullyPut r p conn (Some err) ?w1")
       (simp add: Get_empty [OF assms(1,2)] split: sum.splits)
qed

text \<open>
  Claim C3. On a pool whose idle buffer is empty, \<^verbatim>\<open>Get\<close> calls \<^verbatim>\<open>redis.Dial\<close>
  once, with the pool's \<^verbatim>\<open>Network\<close> and \<^verbatim>\<open>Addr\<close>; it passes the connection and the
  error of the dial to \<^verbatim>\<open>CarefullyPut\<close>, which decides the pool and the history
  that \<^verbatim>\<open>Get\<close> leaves; and it returns the connection and the error of the dial,
  whenever the dial gave a connection or failed with an error that is not a
  \<^verbatim>\<open>*redis.CmdError\<close>.
\<close>

theorem Get_dials_once_when_empty:
  assumes "buf (Pool p) = []"
    and "Dial r (Network p) (Addr p) (length (dialed w)) = (conn, err)"
  shows "snd (Get r p w) =
           snd (CarefullyPut r p conn (Some err) (w\<lparr>dialed := dialed w @ [(Network p, Addr p)]\<rparr>))
       \<and> dialed (snd (snd (Get r p w))) = dialed w @ [(Network p, Addr p)]
       \<and> (conn \<noteq> None \<or> (\<exists>e. err = Some e \<and> \<not> is_CmdError e) \<longrightarrow>
            fst (Get r p w) = Inr (conn, err))"
  using Get_empty_leaves [OF assms] Get_empty_dialed [OF assms(1)] Get_empty_returns [OF assms]
  by blast

theorem Get_dials_once_when_empty_witness:
  "buf (Pool (tcp_pool 1 [])) = []
 \<and> Dial redis_down (Network (tcp_pool 1 [])) (Addr (tcp_pool 1 [])) (length (dialed world0))
       = (None, Some (OtherError ''connection refused''))
 \<and> Get redis_down (tcp_pool 1 []) world0
       = (Inr (None, Some (OtherError ''connection refused'')), tcp_pool 1 [],
          \<lparr>dialed = [(''tcp'', ''localhost:6379'')], closed = []\<rparr>)"
proof -
  have e: "buf (Pool (tcp_pool 1 [])) = []"
    by (simp add: tcp_pool_def)
  have d: "Dial redis_down (Network (tcp_pool 1 [])) (Addr (tcp_pool 1 [])) (length (dialed world0))
           = (None, Some (OtherError ''connection refused''))"
    by (simp add: redis_down_def)
  have c: "CarefullyPut redis_down (tcp_pool 1 []) None (Some (Some (OtherError ''connection refused'')))
             (world0\<lparr>dialed := dialed world0 @ [(Network (tcp_pool 1 []), Addr (tcp_pool 1 []))]\<rparr>)
           = (Inr (), tcp_pool 1 [], \<lparr>dialed = [(''tcp'', ''localhost:6379'')], closed = []\<rparr>)"
    by (simp add: CarefullyPut_def is_CmdError_def tcp_pool_def world0_def)
  have n: "\<not> is_CmdError (OtherError ''connection refused'')"
    by (simp add: is_CmdError_def)
  from Get_dials_once_when_empty [OF e d] c n
  have "snd (Get redis_down (tcp_pool 1 []) world0)
          = (tcp_pool 1 [], \<lparr>dialed = [(''tcp'', ''localhost:6379'')], closed = []\<rparr>)
      \<and> fst (Get redis_down (tcp_pool 1 []) world0)
          = Inr (None, Some (OtherError ''connection refused''))"
    by simp
  then have "Get redis_down (tcp_pool 1 []) world0
       = (Inr (None, Some (OtherError ''connection refused'')), tcp_pool 1 [],
          \<lparr>dialed = [(''tcp'', ''localhost:6379'')], closed = []\<rparr>)"
    by (cases "Get redis_down (tcp_pool 1 []) world0") simp
  with e d show ?thesis by simp
qed

subsection \<open>Empty\<close>

lemma Empty_done: "buf (Pool p) = [] \<Longrightarrow> Empty r p w = (Inr (), p, w)"
  by (subst Empty.simps) (simp add: try_recv_def)

lemma Empty_nil_conn:
  "buf (Pool p) = None # xs \<Longrightarrow>
   Empty r p w = (Inl NilDereference, p\<lparr>Pool := (Pool p)\<lparr>buf := xs\<rparr>\<rparr>, w)"
  by (subst Empty.simps) (simp add: try_recv_def Client_Close_def)

lemma Empty_next:
  "buf (Pool p) = Some c # xs \<Longrightarrow>
   Empty r p w = Empty r (p\<lparr>Pool := (Pool p)\<lparr>buf := xs\<rparr>\<rparr>) (w\<lparr>closed := closed w @ [c]\<rparr>)"
  by (subst Empty.simps) (simp add: try_recv_def Client_Close_def)

lemma Empty_all:
  "buf (Pool p) = xs \<Longrightarrow> None \<notin> set xs \<Longrightarrow>
   Empty r p w =
     (Inr (), p\<lparr>Pool := (Pool p)\<lparr>buf := []\<rparr>\<rparr>, w\<lparr>closed := closed w @ map the xs\<rparr>)"
proof (induction xs arbitrary: p w)
  case Nil
  then have "p\<lparr>Pool := (Pool p)\<lparr>buf := []\<rparr>\<rparr> = p" by simp
  with Nil show ?case by (simp add: Empty_done)
next
  case (Cons x xs)
  then obtain c where x: "x = Some c" by (cases x) auto
  let ?p' = "p\<lparr>Pool := (Pool p)\<lparr>buf := xs\<rparr>\<rparr>"
  let ?w' = "w\<lparr>closed := closed w @ [c]\<rparr>"
  have "Empty r p w = Empty r ?p' ?w'"
    using Cons.prems(1) x by (simp add: Empty_next)
  also have "\<dots> = (Inr (), ?p'\<lparr>Pool := (Pool ?p')\<lparr>buf := []\<rparr>\<rparr>,
                      ?w'\<lparr>closed := closed ?w' @ map the xs\<rparr>)"
    using Cons.prems(2) by (intro Cons.IH) simp_all
  finally show ?case using x by simp
qed

lemma Empty_shrinks:
  "buf (Pool p) = xs \<Longrightarrow>
   length (buf (Pool (fst (snd (Empty r p w))))) \<le> length xs
   \<and> cap (Pool (fst (snd (Empty r p w)))) = cap (Pool p)"
proof (induction xs arbitrary: p w)
  case Nil
  then show ?case by (simp add: Empty_done)
next
  case (Cons x xs)
  show ?case
  proof (cases x)
    case None
    with Cons.prems show ?thesis by (simp add: Empty_nil_conn)
  next
    case (Some c)
    let ?p' = "p\<lparr>Pool := (Pool p)\<lparr>buf := xs\<rparr>\<rparr>"
    let ?w' = "w\<lparr>closed := closed w @ [c]\<rparr>"
    have "Empty r p w = Empty r ?p' ?w'"
      using Cons.prems Some by (simp add: Empty_next)
    moreover have "length (buf (Pool (fst (snd (Empty r ?p' ?w'))))) \<le> length xs
       \<and> cap (Pool (fst (snd (Empty r ?p' ?w')))) = cap (Pool ?p')"
      by (intro Cons.IH) simp
    ultimately show ?thesis by simp
  qed
qed

text \<open>
  Claim C7. On an idle buffer of connections (no nil pointer among them),
  \<^verbatim>\<open>Empty\<close> returns with the buffer empty, having called \<^verbatim>\<open>Close\<close> on the
  connections that were idle, in their order, and on nothing else. A second
  \<^verbatim>\<open>Empty\<close> changes nothing. The pool can be used afterwards: the next \<^verbatim>\<open>Get\<close>
  calls \<^verbatim>\<open>redis.Dial\<close> and returns what the dial gives.
\<close>

theorem Empty_closes_idle_connections:
  assumes "None \<notin> set (buf (Pool p))"
    and "Empty r p w = (res, p', w')"
  shows "res = Inr ()
       \<and> p' = p\<lparr>Pool := (Pool p)\<lparr>buf := []\<rparr>\<rparr>
       \<and> w' = w\<lparr>closed := closed w @ map the (buf (Pool p))\<rparr>
       \<and> Empty r p' w' = (Inr (), p', w')
       \<and> dialed (snd (snd (Get r p' w'))) = dialed w @ [(Network p, Addr p)]
       \<and> (fst (Dial r (Network p) (Addr p) (length (dialed w))) \<noteq> None \<longrightarrow>
            fst (Get r p' w') = Inr (Dial r (Network p) (Addr p) (length (dialed w))))"
proof -
  have first: "Empty r p w = (Inr (), p\<lparr>Pool := (Pool p)\<lparr>buf := []\<rparr>\<rparr>,
                              w\<lparr>closed := closed w @ map the (buf (Pool p))\<rparr>)"
    using assms(1) by (intro Empty_all) simp_all
  with assms(2) have res: "res = Inr ()"
    and p': "p' = p\<lparr>Pool := (Pool p)\<lparr>buf := []\<rparr>\<rparr>"
    and w': "w' = w\<lparr>closed := closed w @ map the (buf (Pool p))\<rparr>"
    by simp_all
  have empty: "buf (Pool p') = []" using p' by simp
  have again: "Empty r p' w' = (Inr (), p', w')"
    using empty by (rule Empty_done)
  have same: "Network p' = Network p" "Addr p' = Addr p" "dialed w' = dialed w"
    using p' w' by simp_all
  have fresh: "dialed (snd (snd (Get r p' w'))) = dialed w @ [(Network p, Addr p)]"
    using Get_empty_dialed [OF empty, of r w'] by (simp add: same)
  have ret: "fst (Get r p' w') = Inr (Dial r (Network p) (Addr p) (length (dialed w)))"
    if "fst (Dial r (Network p) (Addr p) (length (dialed w))) \<noteq> None"
    using Get_empty_returns [OF empty, of r w'] that
    by (cases "Dial r (Network p) (Addr p) (length (dialed w))") (simp add: same)
  from res p' w' again fresh ret show ?thesis by simp
qed

theorem Empty_closes_idle_connections_witness:
  "None \<notin> set (buf (Pool (tcp_pool 3 [Some 5, Some 6])))
 \<and> Empty redis_up (tcp_pool 3 [Some 5, Some 6]) world0
       = (Inr (), tcp_pool 3 [], \<lparr>dialed = [], closed = [5, 6]\<rparr>)
 \<and> Empty redis_up (tcp_pool 3 []) \<lparr>dialed = [], closed = [5, 6]\<rparr>
       = (Inr (), tcp_pool 3 [], \<lparr>dialed = [], closed = [5, 6]\<rparr>)
 \<and> fst (Get redis_up (tcp_pool 3 []) \<lparr>dialed = [], closed = [5, 6]\<rparr>) = Inr (Some 0, None)"
proof -
  have idle: "None \<notin> set (buf (Pool (tcp_pool 3 [Some 5, Some 6])))"
    by (simp add: tcp_pool_def)
  have drained: "Empty redis_up (tcp_pool 3 [Some 5, Some 6]) world0
       = (Inr (), tcp_pool 3 [], \<lparr>dialed = [], closed = [5, 6]\<rparr>)"
    by code_simp
  from Empty_closes_idle_connections [OF idle drained] idle drained show ?thesis
    by (simp add: tcp_pool_def world0_def redis_up_def)
qed

subsection \<open>NewPool and NewOrEmptyPool\<close>

lemma NewPool_fill_room:
  "length (buf ch) + length cs \<le> cap ch \<Longrightarrow> NewPool_fill ch cs = Inr (ch\<lparr>buf := buf ch @ cs\<rparr>)"
  by (induction cs arbitrary: ch) (simp_all add: send_def try_send_def)

lemma NewPool_fill_make: "NewPool_fill (make_chan (length cs)) cs = Inr \<lparr>cap = length cs, buf = cs\<rparr>"
  using NewPool_fill_room [of "make_chan (length cs)" cs] by (simp add: make_chan_def)

lemma NewPool_dial_stop:
  "\<not> i < length pool \<Longrightarrow> NewPool_dial r network addr pool i w = (Inr pool, w)"
  by (subst NewPool_dial.simps) simp

lemma NewPool_dial_error:
  "i < length pool \<Longrightarrow> Dial r network addr (length (dialed w)) = (c, Some e) \<Longrightarrow>
   NewPool_dial r network addr pool i w = (Inl e, w\<lparr>dialed := dialed w @ [(network, addr)]\<rparr>)"
  by (subst NewPool_dial.simps) (simp add: redis_Dial_def)

lemma NewPool_dial_next:
  "i < length pool \<Longrightarrow> Dial r network addr (length (dialed w)) = (c, None) \<Longrightarrow>
   NewPool_dial r network addr pool i w =
     NewPool_dial r network addr (pool[i := c]) (Suc i) (w\<lparr>dialed := dialed w @ [(network, addr)]\<rparr>)"
  by (subst NewPool_dial.simps) (simp add: redis_Dial_def)

lemma NewPool_dial_fails:
  "i + k < length pool \<Longrightarrow>
   snd (Dial r network addr (length (dialed w) + k)) = Some e \<Longrightarrow>
   \<forall>j<k. snd (Dial r network addr (length (dialed w) + j)) = None \<Longrightarrow>
   NewPool_dial r network addr pool i w =
     (Inl e, w\<lparr>dialed := dialed w @ replicate (Suc k) (network, addr)\<rparr>)"
proof (induction k arbitrary: pool i w)
  case 0
  then show ?case
    by (cases "Dial r network addr (length (dialed w))") (simp add: NewPool_dial_error)
next
  case (Suc k)
  let ?w1 = "w\<lparr>dialed := dialed w @ [(network, addr)]\<rparr>"
  obtain c where d: "Dial r network addr (length (dialed w)) = (c, None)"
    using Suc.prems(3) by (cases "Dial r network addr (length (dialed w))") force
  have step: "NewPool_dial r network addr pool i w =
              NewPool_dial r network addr (pool[i := c]) (Suc i) ?w1"
    using Suc.prems(1) d by (simp add: NewPool_dial_next)
  have "NewPool_dial r network addr (pool[i := c]) (Suc i) ?w1 =
        (Inl e, ?w1\<lparr>dialed := dialed ?w1 @ replicate (Suc k) (network, addr)\<rparr>)"
  proof (rule Suc.IH)
    show "Suc i + k < length (pool[i := c])" using Suc.prems(1) by simp
    show "snd (Dial r network addr (length (dialed ?w1) + k)) = Some e"
      using Suc.prems(2) by simp
    show "\<forall>j<k. snd (Dial r network addr (length (dialed ?w1) + j)) = None"
      using Suc.prems(3) by auto
  qed
  with step show ?case by simp
qed

lemma NewPool_dial_succeeds:
  "length pool - i = n \<Longrightarrow>
   \<forall>j<n. snd (Dial r network addr (length (dialed w) + j)) = None \<Longrightarrow>
   NewPool_dial r network addr pool i w =
     (Inr (take i pool @ map (\<lambda>j. fst (Dial r network addr (length (dialed w) + j))) [0..<n]),
      w\<lparr>dialed := dialed w @ replicate n (network, addr)\<rparr>)"
proof (induction n arbitrary: pool i w)
  case 0
  then show ?case by (simp add: NewPool_dial_stop)
next
  case (Suc n)
  let ?w1 = "w\<lparr>dialed := dialed w @ [(network, addr)]\<rparr>"
  let ?f = "\<lambda>j. fst (Dial r network addr (length (dialed w) + j))"
  have i: "i < length pool" using Suc.prems(1) by simp
  have d: "Dial r network addr (length (dialed w)) = (?f 0, None)"
    using Suc.prems(2) by (cases "Dial r network addr (length (dialed w))") force
  have step: "NewPool_dial r network addr pool i w =
              NewPool_dial r network addr (pool[i := ?f 0]) (Suc i) ?w1"
    using i d by (simp add: NewPool_dial_next)
  have "NewPool_dial r network addr (pool[i := ?f 0]) (Suc i) ?w1 =
        (Inr (take (Suc i) (pool[i := ?f 0])
               @ map (\<lambda>j. fst (Dial r network addr (length (dialed ?w1) + j))) [0..<n]),
         ?w1\<lparr>dialed := dialed ?w1 @ replicate n (network, addr)\<rparr>)"
  proof (rule Suc.IH)
    show "length (pool[i := ?f 0]) - Suc i = n" using Suc.prems(1) by simp
    show "\<forall>j<n. snd (Dial r network addr (length (dialed ?w1) + j)) = None"
      using Suc.prems(2) by auto
  qed
  moreover have "take (Suc i) (pool[i := ?f 0]) = take i pool @ [?f 0]"
    using i by (simp add: take_Suc_conv_app_nth)
  moreover have "map (\<lambda>j. fst (Dial r network addr (length (dialed ?w1) + j))) [0..<n]
               = map (\<lambda>j. ?f (Suc j)) [0..<n]"
    by simp
  moreover have "map (\<lambda>j. ?f (Suc j)) [0..<n] = map ?f [Suc 0..<Suc n]"
    by (simp only: map_Suc_upt [symmetric] map_map o_def)
  moreover have "?f 0 # map ?f [Suc 0..<Suc n] = map ?f [0..<Suc n]"
    by (simp only: upt_conv_Cons [OF zero_less_Suc] list.map)
  moreover have "?w1\<lparr>dialed := dialed ?w1 @ replicate n (network, addr)\<rparr>
               = w\<lparr>dialed := dialed w @ replicate (Suc n) (network, addr)\<rparr>"
    by simp
  ultimately show ?case using step by (simp only: append_assoc append_Cons append_Nil)
qed

lemma NewPool_succeeds:
  assumes "0 \<le> sz"
    and "\<forall>j<nat sz. snd (Dial r network addr (length (dialed w) + j)) = None"
  shows "NewPool r network addr sz w =
     (Inr (Some \<lparr>Network = network, Addr = addr,
                 Pool = \<lparr>cap = nat sz,
                         buf = map (\<lambda>j. fst (Dial r network addr (length (dialed w) + j))) [0..<nat sz]\<rparr>\<rparr>,
           None),
      w\<lparr>dialed := dialed w @ replicate (nat sz) (network, addr)\<rparr>)"
proof -
  let ?cs = "map (\<lambda>j. fst (Dial r network addr (length (dialed w) + j))) [0..<nat sz]"
  have "NewPool_dial r network addr (replicate (nat sz) None) 0 w =
          (Inr (take 0 (replicate (nat sz) None) @ ?cs),
           w\<lparr>dialed := dialed w @ replicate (nat sz) (network, addr)\<rparr>)"
    using assms(2) by (intro NewPool_dial_succeeds) simp_all
  moreover have "NewPool_fill (make_chan (length ?cs)) ?cs = Inr \<lparr>cap = length ?cs, buf = ?cs\<rparr>"
    by (rule NewPool_fill_make)
  ultimately show ?thesis using assms(1) by (simp add: NewPool_def)
qed

lemma NewPool_fails:
  assumes "k < nat sz"
    and "snd (Dial r network addr (length (dialed w) + k)) = Some e"
    and "\<forall>j<k. snd (Dial r network addr (length (dialed w) + j)) = None"
  shows "NewPool r network addr sz w =
     (Inr (None, Some e), w\<lparr>dialed := dialed w @ replicate (Suc k) (network, addr)\<rparr>)"
proof -
  have "NewPool_dial r network addr (replicate (nat sz) None) 0 w =
          (Inl e, w\<lparr>dialed := dialed w @ replicate (Suc k) (network, addr)\<rparr>)"
    using assms by (intro NewPool_dial_fails) simp_all
  moreover have "\<not> sz < 0" using assms(1) by simp
  ultimately show ?thesis by (simp add: NewPool_def)
qed

lemma NewPool_outcome:
  assumes "0 \<le> sz"
  shows "(\<exists>p w'. NewPool r network addr sz w = (Inr (Some p, None), w')
            \<and> Network p = network \<and> Addr p = addr
            \<and> cap (Pool p) = nat sz \<and> length (buf (Pool p)) = nat sz)
       \<or> (\<exists>e w'. NewPool r network addr sz w = (Inr (None, Some e), w'))"
proof (cases "\<forall>j<nat sz. snd (Dial r network addr (length (dialed w) + j)) = None")
  case True
  from NewPool_succeeds [OF assms this] show ?thesis by simp
next
  case False
  define P where "P j \<longleftrightarrow> snd (Dial r network addr (length (dialed w) + j)) \<noteq> None" for j
  from False obtain j where j: "j < nat sz" "P j" by (auto simp: P_def)
  define k where "k = (LEAST j. P j)"
  have Pk: "P k" unfolding k_def using j(2) by (rule LeastI)
  have kj: "k \<le> j" unfolding k_def using j(2) by (rule Least_le)
  have least: "\<forall>i<k. snd (Dial r network addr (length (dialed w) + i)) = None"
    using not_less_Least [of _ P] by (auto simp: k_def P_def)
  from Pk obtain e where "snd (Dial r network addr (length (dialed w) + k)) = Some e"
    by (auto simp: P_def)
  from NewPool_fails [OF _ this least] kj j(1) show ?thesis by simp
qed

text \<open>
  Claim C9. If one of the \<open>sz\<close> dials of \<^verbatim>\<open>NewPool\<close> would fail, \<^verbatim>\<open>NewPool\<close> returns
  a nil pool together with the error of the first dial that fails; it stops
  dialing there.
\<close>

theorem NewPool_returns_first_dial_error:
  assumes "k < nat sz"
    and "snd (Dial r network addr (length (dialed w) + k)) \<noteq> None"
  shows "\<exists>e j. j \<le> k
       \<and> snd (Dial r network addr (length (dialed w) + j)) = Some e
       \<and> NewPool r network addr sz w =
           (Inr (None, Some e), w\<lparr>dialed := dialed w @ replicate (Suc j) (network, addr)\<rparr>)"
proof -
  define P where "P j \<longleftrightarrow> snd (Dial r network addr (length (dialed w) + j)) \<noteq> None" for j
  define j where "j = (LEAST j. P j)"
  have Pk: "P k" using assms(2) by (simp add: P_def)
  have Pj: "P j" unfolding j_def using Pk by (rule LeastI)
  have jk: "j \<le> k" unfolding j_def using Pk by (rule Least_le)
  have least: "\<forall>i<j. snd (Dial r network addr (length (dialed w) + i)) = None"
    using not_less_Least [of _ P] by (auto simp: j_def P_def)
  from Pj obtain e where e: "snd (Dial r network addr (length (dialed w) + j)) = Some e"
    by (auto simp: P_def)
  have "j < nat sz" using jk assms(1) by simp
  from NewPool_fails [OF this e least] jk e show ?thesis by blast
qed

theorem NewPool_returns_first_dial_error_witness:
  "(2::nat) < nat 3
 \<and> snd (Dial redis_flaky ''tcp'' ''localhost:6379'' (length (dialed world0) + 2)) \<noteq> None
 \<and> (\<exists>e j. j \<le> 2
       \<and> snd (Dial redis_flaky ''tcp'' ''localhost:6379'' (length (dialed world0) + j)) = Some e
       \<and> NewPool redis_flaky ''tcp'' ''localhost:6379'' 3 world0 =
           (Inr (None, Some e),
            world0\<lparr>dialed := dialed world0 @ replicate (Suc j) (''tcp'', ''localhost:6379'')\<rparr>))"
proof -
  have k: "(2::nat) < nat 3" by simp
  have refused: "snd (Dial redis_flaky ''tcp'' ''localhost:6379'' (length (dialed world0) + 2)) \<noteq> None"
    by (simp add: redis_flaky_def)
  from NewPool_returns_first_dial_error [OF k refused] k refused show ?thesis by blast
qed

text \<open>
  Claim C8. For a size that is not negative: the pool that \<^verbatim>\<open>NewPool\<close> returns on
  success holds exactly \<open>sz\<close> connections in a buffer of capacity \<open>sz\<close>, and
  \<^verbatim>\<open>NewOrEmptyPool\<close> returns the same pool; when \<^verbatim>\<open>NewPool\<close> returns an error,
  \<^verbatim>\<open>NewOrEmptyPool\<close> returns a pool of the same network, address and capacity
  with an empty buffer; \<^verbatim>\<open>NewOrEmptyPool\<close> always returns a pool.
\<close>

theorem construction_fills_or_starts_empty:
  assumes "0 \<le> sz"
  shows "(NewPool r network addr sz w = (Inr (Some p, None), w') \<longrightarrow>
            length (buf (Pool p)) = nat sz \<and> cap (Pool p) = nat sz
          \<and> Network p = network \<and> Addr p = addr
          \<and> NewOrEmptyPool r network addr sz w = (Inr (Some p), w'))
       \<and> (NewPool r network addr sz w = (Inr (po, Some e), w') \<longrightarrow>
            NewOrEmptyPool r network addr sz w =
              (Inr (Some \<lparr>Network = network, Addr = addr, Pool = \<lparr>cap = nat sz, buf = []\<rparr>\<rparr>), w'))
       \<and> (\<exists>q v. NewOrEmptyPool r network addr sz w = (Inr (Some q), v)
              \<and> Network q = network \<and> Addr q = addr \<and> cap (Pool q) = nat sz)"
proof -
  have a: "length (buf (Pool p)) = nat sz \<and> cap (Pool p) = nat sz
          \<and> Network p = network \<and> Addr p = addr
          \<and> NewOrEmptyPool r network addr sz w = (Inr (Some p), w')"
    if "NewPool r network addr sz w = (Inr (Some p, None), w')"
    using NewPool_outcome [OF assms, of r network addr w] that
    by (auto simp: NewOrEmptyPool_def)
  have b: "NewOrEmptyPool r network addr sz w =
              (Inr (Some \<lparr>Network = network, Addr = addr, Pool = \<lparr>cap = nat sz, buf = []\<rparr>\<rparr>), w')"
    if "NewPool r network addr sz w = (Inr (po, Some e), w')"
    using that assms by (simp add: NewOrEmptyPool_def make_chan_def)
  have c: "\<exists>q v. NewOrEmptyPool r network addr sz w = (Inr (Some q), v)
              \<and> Network q = network \<and> Addr q = addr \<and> cap (Pool q) = nat sz"
    using NewPool_outcome [OF assms, of r network addr w] assms
    by (auto simp: NewOrEmptyPool_def make_chan_def)
  from a b c show ?thesis by blast
qed

theorem construction_fills_or_starts_empty_witness:
  "(0::int) \<le> 2
 \<and> NewPool redis_up ''tcp'' ''localhost:6379'' 2 world0
       = (Inr (Some (tcp_pool 2 [Some 0, Some 1]), None),
          \<lparr>dialed = [(''tcp'', ''localhost:6379''), (''tcp'', ''localhost:6379'')], closed = []\<rparr>)
 \<and> length (buf (Pool (tcp_pool 2 [Some 0, Some 1]))) = nat 2
 \<and> NewPool redis_flaky ''tcp'' ''localhost:6379'' 3 world0
       = (Inr (None, Some (OtherError ''connection refused'')),
          \<lparr>dialed = replicate 3 (''tcp'', ''localhost:6379''), closed = []\<rparr>)
 \<and> NewOrEmptyPool redis_flaky ''tcp'' ''localhost:6379'' 3 world0
       = (Inr (Some (tcp_pool 3 [])), \<lparr>dialed = replicate 3 (''tcp'', ''localhost:6379''), closed = []\<rparr>)"
proof -
  have up: "NewPool redis_up ''tcp'' ''localhost:6379'' 2 world0
       = (Inr (Some (tcp_pool 2 [Some 0, Some 1]), None),
          \<lparr>dialed = [(''tcp'', ''localhost:6379''), (''tcp'', ''localhost:6379'')], closed = []\<rparr>)"
    by code_simp
  have flaky: "NewPool redis_flaky ''tcp'' ''localhost:6379'' 3 world0
       = (Inr (None, Some (OtherError ''connection refused'')),
          \<lparr>dialed = replicate 3 (''tcp'', ''localhost:6379''), closed = []\<rparr>)"
    by code_simp
  have two: "(0::int) \<le> 2" and three: "(0::int) \<le> 3" by simp_all
  from construction_fills_or_starts_empty
      [OF two, where r = redis_up and network = "''tcp''" and addr = "''localhost:6379''"
         and w = world0 and p = "tcp_pool 2 [Some 0, Some 1]"
         and w' = "\<lparr>dialed = [(''tcp'', ''localhost:6379''), (''tcp'', ''localhost:6379'')], closed = []\<rparr>"]
    up
  have a: "length (buf (Pool (tcp_pool 2 [Some 0, Some 1]))) = nat 2"
    by simp
  from construction_fills_or_starts_empty
      [OF three, where r = redis_flaky and network = "''tcp''" and addr = "''localhost:6379''"
         and w = world0 and po = None and e = "OtherError ''connection refused''"
         and w' = "\<lparr>dialed = replicate 3 (''tcp'', ''localhost:6379''), closed = []\<rparr>"]
    flaky
  have b: "NewOrEmptyPool redis_flaky ''tcp'' ''localhost:6379'' 3 world0
       = (Inr (Some (tcp_pool 3 [])), \<lparr>dialed = replicate 3 (''tcp'', ''localhost:6379''), closed = []\<rparr>)"
    by (simp add: tcp_pool_def)
  from two up a flaky b show ?thesis by simp
qed

subsection \<open>Sequences of calls on a constructed pool\<close>

lemma Put_bound:
  "length (buf (Pool p)) \<le> cap (Pool p) \<Longrightarrow>
   length (buf (Pool (fst (snd (Put r p conn w))))) \<le> cap (Pool p)
   \<and> cap (Pool (fst (snd (Put r p conn w)))) = cap (Pool p)"
  by (simp add: Put_cases split: option.splits)

lemma CarefullyPut_bound:
  "length (buf (Pool p)) \<le> cap (Pool p) \<Longrightarrow>
   length (buf (Pool (fst (snd (CarefullyPut r p conn potentialErr w))))) \<le> cap (Pool p)
   \<and> cap (Pool (fst (snd (CarefullyPut r p conn potentialErr w)))) = cap (Pool p)"
  by (simp add: CarefullyPut_cases Put_bound split: option.splits)

lemma Get_bound:
  assumes "length (buf (Pool p)) \<le> cap (Pool p)"
  shows "length (buf (Pool (fst (snd (Get r p w))))) \<le> cap (Pool p)
       \<and> cap (Pool (fst (snd (Get r p w)))) = cap (Pool p)"
proof (cases "buf (Pool p)")
  case Nil
  obtain conn err where d: "Dial r (Network p) (Addr p) (length (dialed w)) = (conn, err)"
    by (cases "Dial r (Network p) (Addr p) (length (dialed w))")
  show ?thesis
    using CarefullyPut_bound [OF assms] by (simp add: Get_empty_leaves [OF Nil d])
next
  case (Cons c cs)
  with assms show ?thesis by (simp add: Get_nonempty)
qed

lemma Empty_bound:
  "length (buf (Pool p)) \<le> cap (Pool p) \<Longrightarrow>
   length (buf (Pool (fst (snd (Empty r p w))))) \<le> cap (Pool p)
   \<and> cap (Pool (fst (snd (Empty r p w)))) = cap (Pool p)"
  using Empty_shrinks [where p = p and r = r and w = w, OF refl] by simp

lemma step_bound:
  assumes "length (buf (Pool (fst s))) \<le> cap (Pool (fst s))"
  shows "length (buf (Pool (fst (step r c s)))) \<le> cap (Pool (fst s))
       \<and> cap (Pool (fst (step r c s))) = cap (Pool (fst s))"
proof (cases s)
  case (Pair p w)
  with assms have b: "length (buf (Pool p)) \<le> cap (Pool p)" by simp
  show ?thesis
    using Get_bound [OF b] Put_bound [OF b] CarefullyPut_bound [OF b] Empty_bound [OF b]
    by (cases c) (simp_all add: Pair)
qed

lemma run_bound:
  "length (buf (Pool (fst s))) \<le> cap (Pool (fst s)) \<Longrightarrow> t \<in> set (run r calls s) \<Longrightarrow>
   length (buf (Pool (fst t))) \<le> cap (Pool (fst s)) \<and> cap (Pool (fst t)) = cap (Pool (fst s))"
proof (induction calls arbitrary: s)
  case Nil
  then show ?case by simp
next
  case (Cons c calls)
  show ?case
  proof (cases "t = s")
    case True
    with Cons.prems show ?thesis by simp
  next
    case False
    with Cons.prems have t: "t \<in> set (run r calls (step r c s))" by simp
    have b: "length (buf (Pool (fst (step r c s)))) \<le> cap (Pool (fst (step r c s)))"
      using step_bound [OF Cons.prems(1), of r c] by simp
    from Cons.IH [OF b t] step_bound [OF Cons.prems(1), of r c] show ?thesis by simp
  qed
qed

lemma constructed:
  assumes "NewPool r network addr sz w = (Inr (Some p, None), w')
         \<or> NewOrEmptyPool r network addr sz w = (Inr (Some p), w')"
  shows "0 \<le> sz \<and> cap (Pool p) = nat sz \<and> length (buf (Pool p)) \<le> nat sz"
proof -
  have sz: "0 \<le> sz"
    using assms by (cases "sz < 0") (auto simp: NewPool_def NewOrEmptyPool_def)
  from assms NewPool_outcome [OF sz, of r network addr w] sz
  have "cap (Pool p) = nat sz \<and> length (buf (Pool p)) \<le> nat sz"
    by (auto simp: NewOrEmptyPool_def make_chan_def)
  with sz show ?thesis by simp
qed

text \<open>
  Claim C2. On a pool constructed with size \<open>sz\<close> by either constructor, after any
  sequence of \<^verbatim>\<open>Get\<close>, \<^verbatim>\<open>Put\<close>, \<^verbatim>\<open>CarefullyPut\<close> and \<^verbatim>\<open>Empty\<close> calls, and at
  every point of it, the idle buffer holds at most \<open>sz\<close> connections.
\<close>

theorem idle_count_never_exceeds_size:
  assumes "NewPool r network addr sz w = (Inr (Some p, None), w')
         \<or> NewOrEmptyPool r network addr sz w = (Inr (Some p), w')"
    and "(q, v) \<in> set (run r calls (p, w'))"
  shows "int (length (buf (Pool q))) \<le> sz"
proof -
  from constructed [OF assms(1)]
  have sz: "0 \<le> sz" and c: "cap (Pool p) = nat sz" and b: "length (buf (Pool p)) \<le> cap (Pool p)"
    by simp_all
  from run_bound [of "(p, w')" "(q, v)" r calls] b assms(2)
  have "length (buf (Pool q)) \<le> cap (Pool p)" by simp
  with c sz show ?thesis by simp
qed

theorem idle_count_never_exceeds_size_witness:
  "NewPool redis_up ''tcp'' ''localhost:6379'' 1 world0
     = (Inr (Some (tcp_pool 1 [Some 0]), None), \<lparr>dialed = [(''tcp'', ''localhost:6379'')], closed = []\<rparr>)
 \<and> (tcp_pool 1 [Some 0], \<lparr>dialed = [(''tcp'', ''localhost:6379'')], closed = [9]\<rparr>)
       \<in> set (run redis_up [CallGet, CallPut (Some 0), CallPut (Some 9)]
               (tcp_pool 1 [Some 0], \<lparr>dialed = [(''tcp'', ''localhost:6379'')], closed = []\<rparr>))
 \<and> int (length (buf (Pool (tcp_pool 1 [Some 0])))) \<le> 1"
proof -
  have built: "NewPool redis_up ''tcp'' ''localhost:6379'' 1 world0
     = (Inr (Some (tcp_pool 1 [Some 0]), None), \<lparr>dialed = [(''tcp'', ''localhost:6379'')], closed = []\<rparr>)"
    by code_simp
  have reached: "(tcp_pool 1 [Some 0], \<lparr>dialed = [(''tcp'', ''localhost:6379'')], closed = [9]\<rparr>)
       \<in> set (run redis_up [CallGet, CallPut (Some 0), CallPut (Some 9)]
               (tcp_pool 1 [Some 0], \<lparr>dialed = [(''tcp'', ''localhost:6379'')], closed = []\<rparr>))"
    by code_simp
  from idle_count_never_exceeds_size [OF disjI1 [OF built] reached] built reached
  show ?thesis by simp
qed

text \<open>
  Claim C10. On a pool constructed with size 0, at any point of any sequence of
  calls, a \<^verbatim>\<open>Get\<close> whose dial succeeds calls \<^verbatim>\<open>Close\<close> on the connection it has
  just dialed (the buffer of capacity 0 has no room for it) and returns that
  connection with a nil error.
\<close>

theorem Get_on_size_zero_pool_returns_closed_connection:
  assumes "NewPool r network addr 0 w0 = (Inr (Some p0, None), w1)
         \<or> NewOrEmptyPool r network addr 0 w0 = (Inr (Some p0), w1)"
    and "(p, w) \<in> set (run r calls (p0, w1))"
    and "Dial r (Network p) (Addr p) (length (dialed w)) = (Some c, None)"
  shows "Get r p w =
     (Inr (Some c, None), p,
      w\<lparr>dialed := dialed w @ [(Network p, Addr p)], closed := closed w @ [c]\<rparr>)"
proof -
  from constructed [OF assms(1)]
  have c0: "cap (Pool p0) = 0" and b0: "length (buf (Pool p0)) \<le> cap (Pool p0)"
    by simp_all
  from run_bound [of "(p0, w1)" "(p, w)" r calls] b0 assms(2) c0
  have cap: "cap (Pool p) = 0" and empty: "buf (Pool p) = []" by simp_all
  show ?thesis
    using cap empty
    by (simp add: Get_empty [OF empty assms(3)] CarefullyPut_cases Put_cases)
qed

theorem Get_on_size_zero_pool_returns_closed_connection_witness:
  "NewOrEmptyPool redis_up ''tcp'' ''localhost:6379'' 0 world0 = (Inr (Some (tcp_pool 0 [])), world0)
 \<and> (tcp_pool 0 [], \<lparr>dialed = [], closed = [4]\<rparr>)
       \<in> set (run redis_up [CallPut (Some 4)] (tcp_pool 0 [], world0))
 \<and> Dial redis_up (Network (tcp_pool 0 [])) (Addr (tcp_pool 0 [])) (length (dialed \<lparr>dialed = [], closed = [4]\<rparr>))
       = (Some 0, None)
 \<and> Get redis_up (tcp_pool 0 []) \<lparr>dialed = [], closed = [4]\<rparr>
       = (Inr (Some 0, None), tcp_pool 0 [],
          \<lparr>dialed = [(''tcp'', ''localhost:6379'')], closed = [4, 0]\<rparr>)"
proof -
  have built: "NewOrEmptyPool redis_up ''tcp'' ''localhost:6379'' 0 world0
                 = (Inr (Some (tcp_pool 0 [])), world0)"
    by code_simp
  have reached: "(tcp_pool 0 [], \<lparr>dialed = [], closed = [4]\<rparr>)
       \<in> set (run redis_up [CallPut (Some 4)] (tcp_pool 0 [], world0))"
    by code_simp
  have dial: "Dial redis_up (Network (tcp_pool 0 [])) (Addr (tcp_pool 0 []))
               (length (dialed \<lparr>dialed = [], closed = [4]\<rparr>)) = (Some 0, None)"
    by (simp add: redis_up_def)
  from Get_on_size_zero_pool_returns_closed_connection [OF disjI2 [OF built] reached dial]
    built reached dial
  show ?thesis by (simp add: tcp_pool_def)
qed

subsection \<open>Ownership\<close>

text \<open>
  Claim C1 fails on \<^verbatim>\<open>Get\<close>. On a pool of capacity 1 with an empty idle buffer,
  \<^verbatim>\<open>Get\<close> dials client 0, puts it in the idle buffer, and returns it as well: the
  caller holds a connection that is idle in the pool. The next \<^verbatim>\<open>Get\<close>, with no
  \<^verbatim>\<open>Put\<close> in between, takes client 0 from the buffer and hands it to a second
  caller.
\<close>

theorem Get_pools_the_connection_it_returns:
  "Get redis_up (tcp_pool 1 []) world0 =
     (Inr (Some 0, None), tcp_pool 1 [Some 0],
      \<lparr>dialed = [(''tcp'', ''localhost:6379'')], closed = []\<rparr>)
 \<and> Get redis_up (tcp_pool 1 [Some 0]) \<lparr>dialed = [(''tcp'', ''localhost:6379'')], closed = []\<rparr> =
     (Inr (Some 0, None), tcp_pool 1 [],
      \<lparr>dialed = [(''tcp'', ''localhost:6379'')], closed = []\<rparr>)"
  by (simp add: Get_def try_recv_def redis_Dial_def CarefullyPut_def Put_def try_send_def
      redis_up_def tcp_pool_def world0_def)

end
